theory Spec2Isabelle
  imports Complex_Main "HOL-Library.Sublist"
begin

section \<open>The optimization service of BypassAIGC\<close>

text \<open>
  A shallow embedding of \<^verbatim>\<open>backend/app/services/optimization_service.py\<close>: the class
  \<^verbatim>\<open>OptimizationService\<close> with \<^verbatim>\<open>start_optimization\<close>, \<^verbatim>\<open>_process_stage\<close>,
  \<^verbatim>\<open>_run_with_retry\<close>, \<^verbatim>\<open>_compress_history\<close>, \<^verbatim>\<open>_save_history\<close> and
  \<^verbatim>\<open>_record_change\<close>.

  The database session is a record of tables; every \<^verbatim>\<open>db.commit()\<close> is written out.
  The collaborators that are imported from other modules (the text splitter, the two
  counting functions, the prompts, the settings, the AI services, the concurrency manager
  and the clock) are the fields of an environment, so every theorem holds for every
  behaviour they can have. Database failures and failures of the counting functions and
  of the splitter are not modelled.
\<close>

subsection \<open>Strings\<close>

text \<open>
  A Python \<^verbatim>\<open>str\<close> is a sequence of Unicode code points, and \<^verbatim>\<open>len\<close> counts them.
  The string literals of the source are written out code point by code point.
\<close>

type_synonym str = "nat list"

definition ascii :: "string \<Rightarrow> str" where
  "ascii s = map of_char s"

text \<open>\<^verbatim>\<open>str(n)\<close> for a non-negative integer: its decimal digits.\<close>

function str_nat :: "nat \<Rightarrow> str" where
  "str_nat n = (if n < 10 then [48 + n] else str_nat (n div 10) @ [48 + n mod 10])"
  by pat_completeness auto
termination
  by (relation "measure id") auto

text \<open>Truthiness of an optional string: \<^verbatim>\<open>None\<close> and \<^verbatim>\<open>""\<close> are false.\<close>

fun truthy :: "str option \<Rightarrow> bool" where
  "truthy None = False"
| "truthy (Some t) = (t \<noteq> [])"

text \<open>\<^verbatim>\<open>a or b\<close> for an optional string \<open>a\<close> and a string \<open>b\<close>.\<close>

fun py_or :: "str option \<Rightarrow> str \<Rightarrow> str" where
  "py_or None b = b"
| "py_or (Some a) b = (if a \<noteq> [] then a else b)"

subsection \<open>The data model\<close>

text \<open>
  \<^verbatim>\<open>_process_stage\<close> is private and is called with the three literals
  \<^verbatim>\<open>"polish"\<close>, \<^verbatim>\<open>"emotion_polish"\<close> and \<^verbatim>\<open>"enhance"\<close> only.
\<close>

datatype stage = Polish | EmotionPolish | Enhance

fun stage_name :: "stage \<Rightarrow> str" where
  "stage_name Polish = ascii ''polish''"
| "stage_name EmotionPolish = ascii ''emotion_polish''"
| "stage_name Enhance = ascii ''enhance''"

datatype run_status = Created | Queued | Processing | Completed | Failed

datatype segment_status = SegPending | SegProcessing | SegCompleted | SegFailed

text \<open>One message of the conversation history, a \<^verbatim>\<open>Dict[str, str]\<close> with the keys
  \<^verbatim>\<open>role\<close> and \<^verbatim>\<open>content\<close>.\<close>

record turn =
  role :: str
  content :: str

text \<open>\<^verbatim>\<open>OptimizationSession\<close>, the fields that the service reads or writes. Progress is
  a Python float in the source; here it is an exact rational.\<close>

record run =
  run_id :: nat
  session_id :: str
  run_original_text :: str
  processing_mode :: "str option"
  status :: run_status
  current_stage :: "stage option"
  current_position :: nat
  total_segments :: nat
  progress :: rat
  failed_segment_index :: "int option"
  error_message :: "str option"
  completed_at :: "nat option"

text \<open>\<^verbatim>\<open>OptimizationSegment\<close>.\<close>

record segment =
  segment_index :: nat
  is_title :: bool
  original_text :: str
  polished_text :: "str option"
  enhanced_text :: "str option"
  seg_status :: segment_status
  seg_stage :: stage
  seg_completed_at :: "nat option"

text \<open>The dictionary that \<^verbatim>\<open>_record_change\<close> serialises into \<^verbatim>\<open>changes_detail\<close>.\<close>

record changes =
  before_length :: nat
  after_length :: nat
  changed :: bool

text \<open>\<^verbatim>\<open>ChangeLog\<close>. The table is kept in the order of \<^verbatim>\<open>created_at\<close>, oldest first.\<close>

record change_log =
  cl_session_id :: nat
  cl_segment_index :: nat
  cl_stage :: stage
  before_text :: str
  after_text :: str
  changes_detail :: changes

text \<open>\<^verbatim>\<open>SessionHistory\<close>; \<^verbatim>\<open>history_data\<close> is the list that the source serialises.\<close>

record session_history =
  sh_session_id :: nat
  sh_stage :: stage
  history_data :: "turn list"
  is_compressed :: bool
  character_count :: int

text \<open>
  What an execution does, in order: every \<^verbatim>\<open>db.commit()\<close> with the row of the run as
  it is committed, the entry into a stage, the write of position and progress at the head
  of the loop, every call of a generative operation (stage, index in the list of segments,
  input text, and what came back: \<open>Inl\<close> of the exception's text or \<open>Inr\<close> of the
  answer), every call of the summarising operation, and the release of the concurrency
  slot.
\<close>

datatype event =
    EvCommit run
  | EvStage stage
  | EvProgress nat rat
  | EvCall stage nat "str option" "str + str"
  | EvCompress
  | EvRelease

text \<open>The database as the service sees it: the row of its session, the segments of that
  session ordered by \<^verbatim>\<open>segment_index\<close>, the history snapshots and the change log.\<close>

record world =
  session_obj :: run
  segments :: "segment list"
  histories :: "session_history list"
  change_logs :: "change_log list"
  trace :: "event list"

text \<open>
  The collaborators. The answer of an AI service, of the clock and of the concurrency
  manager may differ from one call to the next: each takes the number of events so far
  (the manager: the number of polls so far). An AI operation returns \<open>Inl\<close> of the
  exception's text when it raises.
\<close>

record env =
  split_text_into_segments :: "str \<Rightarrow> str list"
  count_chinese_characters :: "str \<Rightarrow> int"
  count_text_length :: "str \<Rightarrow> int"
  get_default_polish_prompt :: str
  get_emotion_polish_prompt :: str
  get_default_enhance_prompt :: str
  SEGMENT_SKIP_THRESHOLD :: int
  HISTORY_COMPRESSION_THRESHOLD :: int
  ai_call :: "nat \<Rightarrow> stage \<Rightarrow> str option \<Rightarrow> str \<Rightarrow> turn list \<Rightarrow> str + str"
  ai_compress_history :: "nat \<Rightarrow> turn list \<Rightarrow> str \<Rightarrow> str + str"
  acquire :: bool
  is_active :: "nat \<Rightarrow> bool"
  utcnow :: "nat \<Rightarrow> nat"

subsection \<open>Small steps\<close>

definition commit :: "world \<Rightarrow> world" where
  "commit s = s\<lparr>trace := trace s @ [EvCommit (session_obj s)]\<rparr>"

definition log_event :: "event \<Rightarrow> world \<Rightarrow> world" where
  "log_event e s = s\<lparr>trace := trace s @ [e]\<rparr>"

definition now :: "env \<Rightarrow> world \<Rightarrow> nat" where
  "now env s = utcnow env (length (trace s))"

text \<open>A mutation of the segment object at position \<open>idx\<close> of the queried list.\<close>

definition set_segment :: "nat \<Rightarrow> (segment \<Rightarrow> segment) \<Rightarrow> world \<Rightarrow> world" where
  "set_segment idx f s = s\<lparr>segments := (segments s)[idx := f (segments s ! idx)]\<rparr>"

definition set_run :: "(run \<Rightarrow> run) \<Rightarrow> world \<Rightarrow> world" where
  "set_run f s = s\<lparr>session_obj := f (session_obj s)\<rparr>"

text \<open>The output field of a stage: \<^verbatim>\<open>polished_text\<close> for the two polishing stages,
  \<^verbatim>\<open>enhanced_text\<close> for the enhancing one.\<close>

fun stage_output :: "stage \<Rightarrow> segment \<Rightarrow> str option" where
  "stage_output Polish seg = polished_text seg"
| "stage_output EmotionPolish seg = polished_text seg"
| "stage_output Enhance seg = enhanced_text seg"

fun get_prompt :: "env \<Rightarrow> stage \<Rightarrow> str" where
  "get_prompt env Polish = get_default_polish_prompt env"
| "get_prompt env EmotionPolish = get_emotion_polish_prompt env"
| "get_prompt env Enhance = get_default_enhance_prompt env"

subsection \<open>\<^verbatim>\<open>_record_change\<close>\<close>

definition same_key :: "nat \<Rightarrow> nat \<Rightarrow> stage \<Rightarrow> change_log \<Rightarrow> bool" where
  "same_key sid idx st row =
     (cl_session_id row = sid \<and> cl_segment_index row = idx \<and> cl_stage row = st)"

text \<open>The query \<^verbatim>\<open>filter(...).order_by(created_at.desc()).first()\<close>: the position of the
  newest row with the key, if there is one.\<close>

fun find_latest :: "(change_log \<Rightarrow> bool) \<Rightarrow> change_log list \<Rightarrow> nat option" where
  "find_latest p [] = None"
| "find_latest p (row # rows) =
     (case find_latest p rows of
        Some i \<Rightarrow> Some (Suc i)
      | None \<Rightarrow> (if p row then Some 0 else None))"

definition upsert_change ::
  "nat \<Rightarrow> nat \<Rightarrow> stage \<Rightarrow> str \<Rightarrow> str \<Rightarrow> change_log list \<Rightarrow> change_log list" where
  "upsert_change sid idx st before after logs =
     (let detail = \<lparr>before_length = length before, after_length = length after,
                     changed = (before \<noteq> after)\<rparr>
      in case find_latest (same_key sid idx st) logs of
           Some i \<Rightarrow>
             logs[i := (logs ! i)\<lparr>before_text := before, after_text := after,
                                  changes_detail := detail\<rparr>]
         | None \<Rightarrow>
             logs @ [\<lparr>cl_session_id = sid, cl_segment_index = idx, cl_stage = st,
                      before_text = before, after_text = after,
                      changes_detail = detail\<rparr>])"

text \<open>The text of the \<^verbatim>\<open>TypeError\<close> of \<^verbatim>\<open>len(None)\<close>.\<close>

definition len_none_error :: str where
  "len_none_error = ascii ''object of type 'NoneType' has no len()''"

text \<open>\<^verbatim>\<open>before\<close> is \<^verbatim>\<open>None\<close> when the enhancing stage meets a segment that has no
  polished text: \<^verbatim>\<open>len(before)\<close> raises then, before anything is written.\<close>

definition record_change ::
  "segment \<Rightarrow> str option \<Rightarrow> str \<Rightarrow> stage \<Rightarrow> world \<Rightarrow> str + world" where
  "record_change seg before after st s =
     (case before of
        None \<Rightarrow> Inl len_none_error
      | Some b \<Rightarrow>
          Inr (commit (s\<lparr>change_logs :=
                 upsert_change (run_id (session_obj s)) (segment_index seg) st b after
                   (change_logs s)\<rparr>)))"

subsection \<open>The string literals of the source\<close>

text \<open>The text before the mode in the \<^verbatim>\<open>ValueError\<close> of \<^verbatim>\<open>start_optimization\<close>.\<close>

definition unsupported_mode_prefix :: str where
  "unsupported_mode_prefix =
   [0x4E0D, 0x652F, 0x6301, 0x7684, 0x5904, 0x7406, 0x6A21, 0x5F0F, 0x3A, 0x20]"

text \<open>The exception of \<^verbatim>\<open>_process_stage\<close> is these two pieces around the index \<^verbatim>\<open>idx\<close>, followed by the text of the cause.\<close>

definition segment_failed_1 :: str where
  "segment_failed_1 =
   [0x5904, 0x7406, 0x6BB5, 0x843D, 0x20]"

text \<open>The second piece.\<close>

definition segment_failed_2 :: str where
  "segment_failed_2 =
   [0x20, 0x5931, 0x8D25, 0x3A, 0x20]"

text \<open>The exception of \<^verbatim>\<open>_run_with_retry\<close> is these three pieces around \<^verbatim>\<open>segment_index + 1\<close> and the name of the stage, followed by the text of the cause.\<close>

definition retry_failed_1 :: str where
  "retry_failed_1 =
   [0x6BB5, 0x843D, 0x20]"

text \<open>The second piece.\<close>

definition retry_failed_2 :: str where
  "retry_failed_2 =
   [0x20, 0x5728, 0x20]"

text \<open>The third piece.\<close>

definition retry_failed_3 :: str where
  "retry_failed_3 =
   [0x20, 0x9636, 0x6BB5, 0x5931, 0x8D25, 0x3A, 0x20]"

text \<open>The text before the summary in the compressed history.\<close>

definition summary_prefix :: str where
  "summary_prefix =
   [0x4E4B, 0x524D, 0x5904, 0x7406, 0x7684, 0x6BB5, 0x843D, 0x6458, 0x8981, 0xFF1A, 0xA]"

text \<open>The instruction for the summariser in the stage \<^verbatim>\<open>emotion_polish\<close>.\<close>

definition emotion_compression_prompt :: str where
  "emotion_compression_prompt =
   [0x4F60, 0x662F, 0x4E00, 0x4E2A, 0x4E13, 0x4E1A, 0x7684, 0x6587, 0x672C, 0x6458, 0x8981,
    0x52A9, 0x624B, 0x3002, 0x8BF7, 0x538B, 0x7F29, 0x4EE5, 0x4E0B, 0x5386, 0x53F2, 0x5904,
    0x7406, 0x5185, 0x5BB9, 0xFF0C, 0x63D0, 0x53D6, 0x5173, 0x952E, 0x98CE, 0x683C, 0x7279,
    0x5F81, 0xFF1A, 0xA, 0xA, 0x31, 0x2E, 0x20, 0x603B, 0x7ED3, 0x6587, 0x672C, 0x7684,
    0x8868, 0x8FBE, 0x98CE, 0x683C, 0x548C, 0x8BED, 0x8A00, 0x7279, 0x70B9, 0xA, 0x32,
    0x2E, 0x20, 0x63D0, 0x53D6, 0x5173, 0x952E, 0x7684, 0x4FEE, 0x6539, 0x65B9, 0x5411,
    0x548C, 0x5904, 0x7406, 0x6A21, 0x5F0F, 0xA, 0x33, 0x2E, 0x20, 0x4FDD, 0x7559, 0x91CD,
    0x8981, 0x7684, 0x8BCD, 0x6C47, 0x4F7F, 0x7528, 0x503E, 0x5411, 0xA, 0x34, 0x2E, 0x20,
    0x5220, 0x9664, 0x91CD, 0x590D, 0x7684, 0x5185, 0x5BB9, 0x548C, 0x5197, 0x4F59, 0x8868,
    0x8FF0, 0xA, 0xA, 0x8981, 0x6C42, 0xFF1A, 0xA, 0x2D, 0x20, 0x538B, 0x7F29, 0x540E,
    0x5185, 0x5BB9, 0x4E0D, 0x8D85, 0x8FC7, 0x539F, 0x5185, 0x5BB9, 0x7684, 0x33, 0x30,
    0x25, 0xA, 0x2D, 0x20, 0x53EA, 0x8F93, 0x51FA, 0x538B, 0x7F29, 0x540E, 0x7684, 0x6458,
    0x8981, 0xFF0C, 0x4E0D, 0x8981, 0x6DFB, 0x52A0, 0x4EFB, 0x4F55, 0x89E3, 0x91CA, 0x548C,
    0x6CE8, 0x91CA, 0xA, 0xA, 0x5386, 0x53F2, 0x5904, 0x7406, 0x5185, 0x5BB9, 0xFF1A]"

text \<open>The instruction for the summariser in the other stages.\<close>

definition standard_compression_prompt :: str where
  "standard_compression_prompt =
   [0x4F60, 0x662F, 0x4E00, 0x4E2A, 0x4E13, 0x4E1A, 0x7684, 0x5B66, 0x672F, 0x6587, 0x672C,
    0x6458, 0x8981, 0x52A9, 0x624B, 0x3002, 0x8BF7, 0x538B, 0x7F29, 0x4EE5, 0x4E0B, 0x5386,
    0x53F2, 0x5904, 0x7406, 0x5185, 0x5BB9, 0xFF0C, 0x63D0, 0x53D6, 0x5173, 0x952E, 0x4FE1,
    0x606F, 0xFF1A, 0xA, 0xA, 0x31, 0x2E, 0x20, 0x4FDD, 0x7559, 0x8BBA, 0x6587, 0x7684,
    0x4E3B, 0x8981, 0x672F, 0x8BED, 0x3001, 0x6838, 0x5FC3, 0x6982, 0x5FF5, 0x548C, 0x5173,
    0x952E, 0x6570, 0x636E, 0xA, 0x32, 0x2E, 0x20, 0x603B, 0x7ED3, 0x5DF2, 0x5904, 0x7406,
    0x6BB5, 0x843D, 0x7684, 0x4E3B, 0x9898, 0x548C, 0x8981, 0x70B9, 0xA, 0x33, 0x2E, 0x20,
    0x63D0, 0x53D6, 0x5904, 0x7406, 0x98CE, 0x683C, 0x548C, 0x6539, 0x8FDB, 0x65B9, 0x5411,
    0x7684, 0x5173, 0x952E, 0x7279, 0x5F81, 0xA, 0x34, 0x2E, 0x20, 0x5220, 0x9664, 0x91CD,
    0x590D, 0x5185, 0x5BB9, 0x548C, 0x5197, 0x4F59, 0x8868, 0x8FF0, 0xA, 0xA, 0x8981,
    0x6C42, 0xFF1A, 0xA, 0x2D, 0x20, 0x538B, 0x7F29, 0x540E, 0x5185, 0x5BB9, 0x4E0D,
    0x8D85, 0x8FC7, 0x539F, 0x5185, 0x5BB9, 0x7684, 0x33, 0x30, 0x25, 0xA, 0x2D, 0x20,
    0x4FDD, 0x6301, 0x5B66, 0x672F, 0x6027, 0x548C, 0x4E13, 0x4E1A, 0x6027, 0xA, 0x2D,
    0x20, 0x53EA, 0x8F93, 0x51FA, 0x538B, 0x7F29, 0x540E, 0x7684, 0x6458, 0x8981, 0x6587,
    0x672C, 0xFF0C, 0x4E0D, 0x8981, 0x6DFB, 0x52A0, 0x4EFB, 0x4F55, 0x89E3, 0x91CA, 0x548C,
    0x6CE8, 0x91CA, 0xA, 0xA, 0xA, 0x5386, 0x53F2, 0x5904, 0x7406, 0x5185, 0x5BB9, 0xFF1A]"

subsection \<open>\<^verbatim>\<open>_compress_history\<close> and \<^verbatim>\<open>_save_history\<close>\<close>

text \<open>The test \<^verbatim>\<open>len(history) == 1 and history[0].get("role") == "system"\<close>.\<close>

fun is_compressed_history :: "turn list \<Rightarrow> bool" where
  "is_compressed_history [t] = (role t = ascii ''system'')"
| "is_compressed_history h = False"

text \<open>\<^verbatim>\<open>history[-3:] if len(history) > 3 else history\<close>.\<close>

definition recent_messages :: "turn list \<Rightarrow> turn list" where
  "recent_messages history =
     (if length history > 3 then drop (length history - 3) history else history)"

definition compression_prompt :: "stage \<Rightarrow> str" where
  "compression_prompt st =
     (if st = EmotionPolish then emotion_compression_prompt else standard_compression_prompt)"

definition system_turn :: "str \<Rightarrow> turn" where
  "system_turn summary = \<lparr>role = ascii ''system'', content = summary_prefix @ summary\<rparr>"

definition assistant_turn :: "str \<Rightarrow> turn" where
  "assistant_turn t = \<lparr>role = ascii ''assistant'', content = t\<rparr>"

text \<open>The result is \<open>Inl\<close> of the exception's text when the summarising call raises.\<close>

definition compress_history ::
  "env \<Rightarrow> turn list \<Rightarrow> stage \<Rightarrow> world \<Rightarrow> (str + turn list) \<times> world" where
  "compress_history env history st s =
     (if is_compressed_history history then (Inr history, s)
      else
        (case ai_compress_history env (length (trace s)) (recent_messages history)
                (compression_prompt st) of
           Inl e \<Rightarrow> (Inl e, log_event EvCompress s)
         | Inr compressed_summary \<Rightarrow>
             (Inr [system_turn compressed_summary], log_event EvCompress s)))"

definition save_history :: "turn list \<Rightarrow> stage \<Rightarrow> int \<Rightarrow> world \<Rightarrow> world" where
  "save_history history st char_count s =
     commit (s\<lparr>histories := histories s @
       [\<lparr>sh_session_id = run_id (session_obj s), sh_stage = st, history_data = history,
         is_compressed = is_compressed_history history,
         character_count = char_count\<rparr>]\<rparr>)"

subsection \<open>\<^verbatim>\<open>_process_stage\<close>\<close>

text \<open>The loop that loads the answers of the segments already done into the history.\<close>

fun load_history ::
  "env \<Rightarrow> stage \<Rightarrow> segment list \<Rightarrow> turn list \<times> int \<Rightarrow> turn list \<times> int" where
  "load_history env st [] acc = acc"
| "load_history env st (seg # segs) (history, total_chars) =
     (if is_title seg then load_history env st segs (history, total_chars)
      else
        (case stage_output st seg of
           None \<Rightarrow> load_history env st segs (history, total_chars)
         | Some t \<Rightarrow>
             (if t \<noteq> [] then
                load_history env st segs
                  (history @ [assistant_turn t], total_chars + count_chinese_characters env t)
              else load_history env st segs (history, total_chars))))"

definition start_index :: "world \<Rightarrow> nat" where
  "start_index s =
     (case failed_segment_index (session_obj s) of
        None \<Rightarrow> 0
      | Some k \<Rightarrow> nat (max k 0))"

definition skip_threshold :: "env \<Rightarrow> int" where
  "skip_threshold env = max (SEGMENT_SKIP_THRESHOLD env) 0"

text \<open>\<^verbatim>\<open>((idx + (0.5 if stage == "enhance" else 0)) / len(segments)) * 100\<close>, in exact
  arithmetic. The loop runs only when there is a segment, so the divisor is not zero.\<close>

definition progress_value :: "stage \<Rightarrow> nat \<Rightarrow> nat \<Rightarrow> rat" where
  "progress_value st idx n =
     ((of_nat idx + (if st = Enhance then 1 / 2 else 0)) / of_nat n) * 100"

definition update_progress :: "stage \<Rightarrow> nat \<Rightarrow> nat \<Rightarrow> world \<Rightarrow> world" where
  "update_progress st n idx s =
     commit (log_event (EvProgress idx (progress_value st idx n))
       (set_run (\<lambda>r. r\<lparr>current_position := idx, progress := progress_value st idx n\<rparr>) s))"

text \<open>A title that has no enhanced text yet, met by the enhancing stage.\<close>

definition fill_title_enhanced :: "env \<Rightarrow> nat \<Rightarrow> world \<Rightarrow> world" where
  "fill_title_enhanced env idx s =
     commit (set_segment idx
       (\<lambda>g. g\<lparr>enhanced_text := Some (py_or (polished_text g) (original_text g)),
              seg_status := SegCompleted,
              seg_completed_at :=
                (case seg_completed_at g of Some t \<Rightarrow> Some t | None \<Rightarrow> Some (now env s))\<rparr>) s)"

text \<open>A segment shorter than the threshold.\<close>

definition mark_title :: "env \<Rightarrow> stage \<Rightarrow> nat \<Rightarrow> world \<Rightarrow> world" where
  "mark_title env st idx s =
     commit (set_segment idx
       (\<lambda>g. g\<lparr>is_title := True, seg_status := SegCompleted,
              polished_text := Some (original_text g),
              enhanced_text := Some (original_text g),
              seg_completed_at := Some (now env s), seg_stage := st\<rparr>) s)"

text \<open>The two formatted messages: the one of \<^verbatim>\<open>_run_with_retry\<close>, with
  \<^verbatim>\<open>segment_index + 1\<close> and the stage, and the one of \<^verbatim>\<open>_process_stage\<close>, with
  \<^verbatim>\<open>idx\<close>.\<close>

definition retry_message :: "nat \<Rightarrow> stage \<Rightarrow> str \<Rightarrow> str" where
  "retry_message segment_idx st exc =
     retry_failed_1 @ str_nat (segment_idx + 1) @ retry_failed_2 @ stage_name st @
     retry_failed_3 @ exc"

definition segment_message :: "nat \<Rightarrow> str \<Rightarrow> str" where
  "segment_message idx e = segment_failed_1 @ str_nat idx @ segment_failed_2 @ e"

text \<open>The handler \<^verbatim>\<open>except Exception as e\<close> of the loop body: \<open>e\<close> is the text of the
  exception caught, the result is the text of the exception raised.\<close>

definition fail_segment :: "nat \<Rightarrow> str \<Rightarrow> world \<Rightarrow> str \<times> world" where
  "fail_segment idx e s =
     (let s1 = commit (set_segment idx (\<lambda>g. g\<lparr>seg_status := SegFailed\<rparr>) s);
          s2 = commit (set_run (\<lambda>r. r\<lparr>failed_segment_index := Some (int idx),
                                      error_message := Some e\<rparr>) s1)
      in (segment_message idx e, s2))"

text \<open>\<^verbatim>\<open>_run_with_retry\<close>: one attempt; an exception is wrapped.\<close>

definition run_with_retry :: "nat \<Rightarrow> stage \<Rightarrow> str + str \<Rightarrow> str + str" where
  "run_with_retry segment_idx st task =
     (case task of
        Inl exc \<Rightarrow> Inl (retry_message segment_idx st exc)
      | Inr v \<Rightarrow> Inr v)"

definition store_output :: "env \<Rightarrow> stage \<Rightarrow> nat \<Rightarrow> str \<Rightarrow> world \<Rightarrow> world" where
  "store_output env st idx output_text s =
     commit (set_segment idx
       (\<lambda>g. (if st = Enhance then g\<lparr>enhanced_text := Some output_text\<rparr>
              else g\<lparr>polished_text := Some output_text\<rparr>)
             \<lparr>seg_status := SegCompleted, seg_completed_at := Some (now env s)\<rparr>) s)"

text \<open>The loop body after a successful call: the change log, the history, its compression
  and its snapshot. The result is the history and its weight for the next segment.\<close>

definition after_call ::
  "env \<Rightarrow> stage \<Rightarrow> nat \<Rightarrow> str option \<Rightarrow> str \<Rightarrow> turn list \<times> int \<Rightarrow> world \<Rightarrow>
     (str + turn list \<times> int) \<times> world" where
  "after_call env st idx input_text output_text acc s =
     (case record_change (segments s ! idx) input_text output_text st s of
        Inl e \<Rightarrow> (case fail_segment idx e s of (msg, s') \<Rightarrow> (Inl msg, s'))
      | Inr s1 \<Rightarrow>
          (let history = fst acc @ [assistant_turn output_text];
               total_chars = snd acc + count_chinese_characters env output_text
           in if total_chars > HISTORY_COMPRESSION_THRESHOLD env then
                (case compress_history env history st s1 of
                   (Inl e, s2) \<Rightarrow> (case fail_segment idx e s2 of (msg, s') \<Rightarrow> (Inl msg, s'))
                 | (Inr compressed, s2) \<Rightarrow>
                     (let total = sum_list (map (\<lambda>m. count_chinese_characters env (content m))
                                     compressed)
                      in (Inr (compressed, total), save_history compressed st total s2)))
              else (Inr (history, total_chars), save_history history st total_chars s1)))"

text \<open>The loop body from \<^verbatim>\<open>segment.status = "processing"\<close> on.\<close>

definition call_ai ::
  "env \<Rightarrow> stage \<Rightarrow> nat \<Rightarrow> turn list \<times> int \<Rightarrow> world \<Rightarrow> (str + turn list \<times> int) \<times> world" where
  "call_ai env st idx acc s =
     (let s1 = commit (set_segment idx (\<lambda>g. g\<lparr>seg_status := SegProcessing, seg_stage := st\<rparr>) s);
          seg = segments s1 ! idx;
          input_text = (if st = Enhance then polished_text seg else Some (original_text seg));
          answer = ai_call env (length (trace s1)) st input_text (get_prompt env st) (fst acc);
          s2 = log_event (EvCall st idx input_text answer) s1
      in case run_with_retry idx st answer of
           Inl e \<Rightarrow> (case fail_segment idx e s2 of (msg, s') \<Rightarrow> (Inl msg, s'))
         | Inr output_text \<Rightarrow>
             after_call env st idx input_text output_text acc
               (store_output env st idx output_text s2))"

text \<open>One iteration of \<^verbatim>\<open>for idx, segment in enumerate(segments[start_index:], ...)\<close>;
  \<open>n\<close> is \<^verbatim>\<open>len(segments)\<close>. \<open>Inl\<close> is the exception that leaves the loop.\<close>

definition process_segment ::
  "env \<Rightarrow> stage \<Rightarrow> nat \<Rightarrow> nat \<Rightarrow> turn list \<times> int \<Rightarrow> world \<Rightarrow>
     (str + turn list \<times> int) \<times> world" where
  "process_segment env st n idx acc s =
     (let s1 = update_progress st n idx s;
          seg = segments s1 ! idx
      in if (st = Polish \<or> st = EmotionPolish) \<and> truthy (polished_text seg) then (Inr acc, s1)
         else if st = Enhance \<and> (truthy (enhanced_text seg) \<or> is_title seg) then
           (if is_title seg \<and> \<not> truthy (enhanced_text seg)
            then (Inr acc, fill_title_enhanced env idx s1)
            else (Inr acc, s1))
         else if count_text_length env (original_text seg) < skip_threshold env
           then (Inr acc, mark_title env st idx s1)
         else call_ai env st idx acc s1)"

fun stage_loop ::
  "env \<Rightarrow> stage \<Rightarrow> nat \<Rightarrow> nat list \<Rightarrow> turn list \<times> int \<Rightarrow> world \<Rightarrow> str option \<times> world" where
  "stage_loop env st n [] acc s = (None, s)"
| "stage_loop env st n (idx # idxs) acc s =
     (case process_segment env st n idx acc s of
        (Inl e, s') \<Rightarrow> (Some e, s')
      | (Inr acc', s') \<Rightarrow> stage_loop env st n idxs acc' s')"

text \<open>\<^verbatim>\<open>_process_stage\<close>: \<open>None\<close> when it returns, \<open>Some\<close> of the text of the exception
  when it raises.\<close>

definition process_stage :: "env \<Rightarrow> stage \<Rightarrow> world \<Rightarrow> str option \<times> world" where
  "process_stage env st s =
     (let s1 = commit (log_event (EvStage st) (set_run (\<lambda>r. r\<lparr>current_stage := Some st\<rparr>) s));
          n = length (segments s1)
      in stage_loop env st n [start_index s1 ..< n]
           (load_history env st (segments s1) ([], 0)) s1)"

subsection \<open>\<^verbatim>\<open>start_optimization\<close>\<close>

definition new_segment :: "nat \<Rightarrow> str \<Rightarrow> segment" where
  "new_segment idx segment_text =
     \<lparr>segment_index = idx, is_title = False, original_text = segment_text,
      polished_text = None, enhanced_text = None, seg_status = SegPending,
      seg_stage = Polish, seg_completed_at = None\<rparr>"

text \<open>The segments are created on the first run and kept afterwards.\<close>

definition materialize :: "env \<Rightarrow> world \<Rightarrow> world" where
  "materialize env s =
     (if segments s = [] then
        (let pieces = split_text_into_segments env (run_original_text (session_obj s));
             s1 = commit (set_run (\<lambda>r. r\<lparr>total_segments := length pieces\<rparr>) s)
         in commit (s1\<lparr>segments := map (\<lambda>(idx, t). new_segment idx t) (enumerate 0 pieces)\<rparr>))
      else commit (set_run (\<lambda>r. r\<lparr>total_segments := length (segments s)\<rparr>) s))"

text \<open>\<^verbatim>\<open>self.session_obj.processing_mode or 'paper_polish_enhance'\<close>.\<close>

definition effective_mode :: "run \<Rightarrow> str" where
  "effective_mode r = py_or (processing_mode r) (ascii ''paper_polish_enhance'')"

text \<open>The chain of \<^verbatim>\<open>if\<close>/\<^verbatim>\<open>elif\<close> on the mode.\<close>

definition run_stages :: "env \<Rightarrow> world \<Rightarrow> str option \<times> world" where
  "run_stages env s =
     (let mode = effective_mode (session_obj s)
      in if mode = ascii ''paper_polish'' then process_stage env Polish s
         else if mode = ascii ''emotion_polish'' then process_stage env EmotionPolish s
         else if mode = ascii ''paper_polish_enhance'' then
           (case process_stage env Polish s of
              (Some e, s1) \<Rightarrow> (Some e, s1)
            | (None, s1) \<Rightarrow> process_stage env Enhance s1)
         else (Some (unsupported_mode_prefix @ mode), s))"

text \<open>The loop \<^verbatim>\<open>while not concurrency_manager.is_active(...)\<close> may run forever: it is
  given a number of polls, and is \<open>False\<close> when they are used up.\<close>

fun wait_active :: "(nat \<Rightarrow> bool) \<Rightarrow> nat \<Rightarrow> nat \<Rightarrow> bool" where
  "wait_active act 0 k = False"
| "wait_active act (Suc fuel) k = (if act k then True else wait_active act fuel (Suc k))"

datatype outcome = Returned | Raised str | Waiting

text \<open>From \<^verbatim>\<open>status = "processing"\<close> to the end, with the handler and the
  \<^verbatim>\<open>finally\<close> clause.\<close>

definition run_admitted :: "env \<Rightarrow> world \<Rightarrow> outcome \<times> world" where
  "run_admitted env s =
     (let s1 = commit (set_run (\<lambda>r. r\<lparr>status := Processing\<rparr>) s);
          s2 = materialize env s1
      in case run_stages env s2 of
           (None, s3) \<Rightarrow>
             (Returned,
              log_event EvRelease
                (commit (set_run (\<lambda>r. r\<lparr>status := Completed,
                                         completed_at := Some (now env s3),
                                         progress := 100,
                                         failed_segment_index := None\<rparr>) s3)))
         | (Some e, s3) \<Rightarrow>
             (Raised e,
              log_event EvRelease
                (commit (set_run (\<lambda>r. r\<lparr>status := Failed, error_message := Some e\<rparr>) s3))))"

text \<open>\<^verbatim>\<open>start_optimization\<close>, given \<open>fuel\<close> polls of the concurrency manager:
  \<open>Waiting\<close> when the run is still queued after them.\<close>

definition start_optimization :: "env \<Rightarrow> nat \<Rightarrow> world \<Rightarrow> outcome \<times> world" where
  "start_optimization env fuel s =
     (let s1 = commit (set_run (\<lambda>r. r\<lparr>error_message := None,
                                      failed_segment_index := None\<rparr>) s)
      in if acquire env then run_admitted env s1
         else
           (let s2 = commit (set_run (\<lambda>r. r\<lparr>status := Queued\<rparr>) s1)
            in if wait_active (is_active env) fuel 0 then run_admitted env s2
               else (Waiting, s2)))"

subsection \<open>What the theorems speak about\<close>

text \<open>The number of rows of the change log with a key.\<close>

definition key_count :: "nat \<Rightarrow> nat \<Rightarrow> stage \<Rightarrow> change_log list \<Rightarrow> nat" where
  "key_count sid idx st logs = length (filter (same_key sid idx st) logs)"

text \<open>The indices of the generative calls in a list of events, and the positions and the
  progress values written at the head of the loop.\<close>

fun calls_of :: "event list \<Rightarrow> nat list" where
  "calls_of [] = []"
| "calls_of (EvCall st idx t a # es) = idx # calls_of es"
| "calls_of (e # es) = calls_of es"

fun positions_of :: "event list \<Rightarrow> nat list" where
  "positions_of [] = []"
| "positions_of (EvProgress idx p # es) = idx # positions_of es"
| "positions_of (e # es) = positions_of es"

fun progress_of :: "event list \<Rightarrow> rat list" where
  "progress_of [] = []"
| "progress_of (EvProgress idx p # es) = p # progress_of es"
| "progress_of (e # es) = progress_of es"

fun stages_of :: "event list \<Rightarrow> stage list" where
  "stages_of [] = []"
| "stages_of (EvStage st # es) = st # stages_of es"
| "stages_of (e # es) = stages_of es"

fun statuses_of :: "event list \<Rightarrow> run_status list" where
  "statuses_of [] = []"
| "statuses_of (EvCommit r # es) = status r # statuses_of es"
| "statuses_of (e # es) = statuses_of es"

text \<open>The events that an execution adds to the trace it starts from.\<close>

definition new_events :: "world \<Rightarrow> world \<Rightarrow> event list" where
  "new_events s s' = drop (length (trace s)) (trace s')"

subsection \<open>Concrete values\<close>

text \<open>An environment in which a segment of fewer than three code points is a title, every
  generative call answers \<^verbatim>\<open>"out"\<close>, and the concurrency slot is free.\<close>

definition example_env :: env where
  "example_env =
     \<lparr>split_text_into_segments = (\<lambda>t. [t, ascii ''second part'']),
      count_chinese_characters = (\<lambda>t. int (length t)),
      count_text_length = (\<lambda>t. int (length t)),
      get_default_polish_prompt = ascii ''polish it'',
      get_emotion_polish_prompt = ascii ''polish it with feeling'',
      get_default_enhance_prompt = ascii ''enhance it'',
      SEGMENT_SKIP_THRESHOLD = 3,
      HISTORY_COMPRESSION_THRESHOLD = 100,
      ai_call = (\<lambda>k st input_text prompt history. Inr (ascii ''out'')),
      ai_compress_history = (\<lambda>k messages prompt. Inr (ascii ''summary'')),
      acquire = True,
      is_active = (\<lambda>k. True),
      utcnow = (\<lambda>k. k)\<rparr>"

text \<open>The same with generative calls that raise.\<close>

definition failing_env :: env where
  "failing_env = example_env\<lparr>ai_call := (\<lambda>k st input_text prompt history. Inl (ascii ''boom''))\<rparr>"

text \<open>The same with a concurrency slot that is granted at the third poll.\<close>

definition queued_env :: env where
  "queued_env = example_env\<lparr>acquire := False, is_active := (\<lambda>k. 2 \<le> k)\<rparr>"

definition example_run :: run where
  "example_run =
     \<lparr>run_id = 1, session_id = ascii ''s1'', run_original_text = ascii ''first part'',
      processing_mode = Some (ascii ''paper_polish''), status = Created,
      current_stage = None, current_position = 0, total_segments = 0, progress = 0,
      failed_segment_index = None, error_message = None, completed_at = None\<rparr>"

text \<open>A run that has no segments yet.\<close>

definition fresh_world :: world where
  "fresh_world =
     \<lparr>session_obj = example_run, segments = [], histories = [], change_logs = [],
      trace = []\<rparr>"

text \<open>A run with three segments: the first is polished, the second is long enough for a
  call, the third is short.\<close>

definition example_world :: world where
  "example_world =
     \<lparr>session_obj = example_run,
      segments =
        [(new_segment 0 (ascii ''first part''))\<lparr>polished_text := Some (ascii ''done'')\<rparr>,
         new_segment 1 (ascii ''second part''),
         new_segment 2 (ascii ''ab'')],
      histories = [], change_logs = [], trace = []\<rparr>"

text \<open>A history of four answers.\<close>

definition four_turns :: "turn list" where
  "four_turns = [assistant_turn (ascii ''a''), assistant_turn (ascii ''b''),
                 assistant_turn (ascii ''c''), assistant_turn (ascii ''d'')]"

section \<open>The change log\<close>

lemma find_latest_None: "(find_latest p xs = None) = (\<forall>x\<in>set xs. \<not> p x)"
  by (induction xs) (auto split: option.splits)

lemma find_latest_Some:
  "find_latest p xs = Some i \<Longrightarrow> i < length xs \<and> p (xs ! i) \<and> (\<forall>j. i < j \<and> j < length xs \<longrightarrow> \<not> p (xs ! j))"
proof (induction xs arbitrary: i)
  case Nil
  then show ?case by simp
next
  case (Cons x xs)
  show ?case
  proof (cases "find_latest p xs")
    case None
    with Cons.prems have i: "i = 0" and px: "p x" by (auto split: if_splits)
    from None have "\<forall>y\<in>set xs. \<not> p y" by (simp add: find_latest_None)
    then have "\<forall>j. 0 < j \<and> j < Suc (length xs) \<longrightarrow> \<not> p ((x # xs) ! j)"
      by (auto simp: nth_Cons split: nat.splits)
    with i px show ?thesis by simp
  next
    case (Some k)
    with Cons.prems have i: "i = Suc k" by simp
    from Cons.IH[OF Some] have k: "k < length xs" "p (xs ! k)"
      and later: "\<forall>j. k < j \<and> j < length xs \<longrightarrow> \<not> p (xs ! j)" by auto
    have "\<forall>j. Suc k < j \<and> j < Suc (length xs) \<longrightarrow> \<not> p ((x # xs) ! j)"
      using later by (auto simp: nth_Cons split: nat.splits)
    with i k show ?thesis by simp
  qed
qed

lemma find_latest_cong_map:
  "map p xs = map p ys \<Longrightarrow> find_latest p xs = find_latest p ys"
proof (induction xs arbitrary: ys)
  case Nil
  then show ?case by simp
next
  case (Cons x xs)
  then obtain y ys' where ys: "ys = y # ys'" by (cases ys) auto
  with Cons.prems have "p x = p y" "map p xs = map p ys'" by auto
  with Cons.IH[of ys'] ys show ?case by simp
qed

lemma find_latest_snoc: "p y \<Longrightarrow> find_latest p (xs @ [y]) = Some (length xs)"
  by (induction xs) auto

lemma filter_length_update:
  "i < length xs \<Longrightarrow> q (xs ! i) = q y \<Longrightarrow> length (filter q (xs[i := y])) = length (filter q xs)"
proof -
  assume a: "i < length xs" "q (xs ! i) = q y"
  have "map q (xs[i := y]) = map q xs"
    using a by (simp add: map_update list_update_same_conv)
  then have "length (filter id (map q (xs[i := y]))) = length (filter id (map q xs))" by simp
  then show ?thesis by (simp add: filter_map comp_def)
qed

lemma key_count_upsert:
  "key_count sid' idx' st' (upsert_change sid idx st b a logs) =
     (if (sid', idx', st') = (sid, idx, st) then max 1 (key_count sid idx st logs)
      else key_count sid' idx' st' logs)"
proof (cases "find_latest (same_key sid idx st) logs")
  case None
  then have "filter (same_key sid idx st) logs = []"
    by (simp add: find_latest_None filter_empty_conv)
  with None show ?thesis
    by (auto simp: key_count_def upsert_change_def same_key_def)
next
  case (Some i)
  from find_latest_Some[OF Some] have i: "i < length logs" "same_key sid idx st (logs ! i)" by auto
  let ?row = "(logs ! i)\<lparr>before_text := b, after_text := a,
      changes_detail := \<lparr>before_length = length b, after_length = length a, changed = (b \<noteq> a)\<rparr>\<rparr>"
  have same: "same_key s1 i1 t1 (logs ! i) = same_key s1 i1 t1 ?row" for s1 i1 t1
    by (simp add: same_key_def)
  have cnt: "key_count s1 i1 t1 (logs[i := ?row]) = key_count s1 i1 t1 logs" for s1 i1 t1
    unfolding key_count_def using filter_length_update[OF i(1) same] .
  have "filter (same_key sid idx st) logs \<noteq> []"
    using i by (auto simp: filter_empty_conv)
  then have "1 \<le> key_count sid idx st logs"
    by (simp add: key_count_def Suc_le_eq)
  with Some cnt show ?thesis
    by (auto simp: upsert_change_def Let_def)
qed

text \<open>
  Claim C5. \<^verbatim>\<open>_record_change\<close> keeps one row for a key (session, segment index, stage):
  when it returns, the number of rows with the recorded key is the number before, or one
  when there was none; no other key gains or loses a row; the table grows by one row
  exactly when the key had none; and the newest row with the key holds the new texts and
  the new detail.
\<close>

theorem record_change_one_row_per_key:
  assumes "record_change seg before after st s = Inr s'"
  shows "\<exists>b i. before = Some b \<and>
           (\<forall>sid' idx' st'.
              key_count sid' idx' st' (change_logs s') =
                (if (sid', idx', st') = (run_id (session_obj s), segment_index seg, st)
                 then max 1 (key_count sid' idx' st' (change_logs s))
                 else key_count sid' idx' st' (change_logs s))) \<and>
           length (change_logs s') =
             (if key_count (run_id (session_obj s)) (segment_index seg) st (change_logs s) = 0
              then length (change_logs s) + 1 else length (change_logs s)) \<and>
           find_latest (same_key (run_id (session_obj s)) (segment_index seg) st)
             (change_logs s') = Some i \<and>
           before_text (change_logs s' ! i) = b \<and>
           after_text (change_logs s' ! i) = after \<and>
           changes_detail (change_logs s' ! i) =
             \<lparr>before_length = length b, after_length = length after, changed = (b \<noteq> after)\<rparr>"
proof -
  let ?sid = "run_id (session_obj s)" and ?idx = "segment_index seg"
  let ?k = "same_key ?sid ?idx st"
  let ?logs = "change_logs s"
  from assms obtain b where b: "before = Some b"
    by (cases before) (auto simp: record_change_def)
  with assms have s': "change_logs s' = upsert_change ?sid ?idx st b after ?logs"
    by (auto simp: record_change_def commit_def)
  let ?d = "\<lparr>before_length = length b, after_length = length after, changed = (b \<noteq> after)\<rparr>"
  have counts: "\<forall>sid' idx' st'.
      key_count sid' idx' st' (change_logs s') =
        (if (sid', idx', st') = (?sid, ?idx, st)
         then max 1 (key_count sid' idx' st' ?logs)
         else key_count sid' idx' st' ?logs)"
    unfolding s' using key_count_upsert[of _ _ _ ?sid ?idx st b after ?logs] by auto
  show ?thesis
  proof (cases "find_latest ?k ?logs")
    case None
    then have none: "\<forall>x\<in>set ?logs. \<not> ?k x" by (simp add: find_latest_None)
    then have zero: "key_count ?sid ?idx st ?logs = 0"
      by (simp add: key_count_def filter_empty_conv)
    let ?row = "\<lparr>cl_session_id = ?sid, cl_segment_index = ?idx, cl_stage = st,
                 before_text = b, after_text = after, changes_detail = ?d\<rparr>"
    from None have eq: "change_logs s' = ?logs @ [?row]"
      by (simp add: s' upsert_change_def)
    have "?k ?row" by (simp add: same_key_def)
    then have fl: "find_latest ?k (change_logs s') = Some (length ?logs)"
      unfolding eq by (rule find_latest_snoc)
    have "length (change_logs s') = length ?logs + 1" by (simp add: eq)
    with b counts zero fl show ?thesis by (simp add: eq)
  next
    case (Some i)
    from find_latest_Some[OF Some] have i: "i < length ?logs" "?k (?logs ! i)" by auto
    let ?row = "(?logs ! i)\<lparr>before_text := b, after_text := after, changes_detail := ?d\<rparr>"
    from Some have eq: "change_logs s' = ?logs[i := ?row]"
      by (simp add: s' upsert_change_def)
    have "map ?k (?logs[i := ?row]) = map ?k ?logs"
      using i by (simp add: map_update list_update_same_conv same_key_def)
    then have "find_latest ?k (?logs[i := ?row]) = find_latest ?k ?logs"
      by (rule find_latest_cong_map)
    with Some have fl: "find_latest ?k (change_logs s') = Some i" by (simp add: eq)
    have "filter ?k ?logs \<noteq> []" using i by (auto simp: filter_empty_conv)
    then have nz: "key_count ?sid ?idx st ?logs \<noteq> 0" by (simp add: key_count_def)
    with b counts fl i show ?thesis by (simp add: eq)
  qed
qed

theorem record_change_one_row_per_key_witness:
  "\<exists>s' s''. record_change (new_segment 1 (ascii ''second part'')) (Some (ascii ''second part''))
       (ascii ''out'') Polish example_world = Inr s' \<and>
     record_change (new_segment 1 (ascii ''second part'')) (Some (ascii ''second part''))
       (ascii ''better'') Polish s' = Inr s'' \<and>
     key_count 1 1 Polish (change_logs s') = 1 \<and>
     key_count 1 1 Polish (change_logs s'') = 1 \<and>
     length (change_logs s'') = 1 \<and>
     after_text (change_logs s'' ! 0) = ascii ''better''"
proof -
  let ?seg = "new_segment 1 (ascii ''second part'')"
  obtain s' where 1: "record_change ?seg (Some (ascii ''second part'')) (ascii ''out'') Polish
      example_world = Inr s'"
    by (simp add: record_change_def)
  obtain s'' where 2: "record_change ?seg (Some (ascii ''second part'')) (ascii ''better'') Polish
      s' = Inr s''"
    by (simp add: record_change_def)
  have sid: "run_id (session_obj example_world) = 1" "segment_index ?seg = 1"
    "change_logs example_world = []"
    by (simp_all add: example_world_def example_run_def new_segment_def)
  have sid': "run_id (session_obj s') = 1"
    using 1 by (auto simp: record_change_def commit_def example_world_def example_run_def)
  from record_change_one_row_per_key[OF 1] sid
  have c1: "key_count 1 1 Polish (change_logs s') = 1" "length (change_logs s') = 1"
    by (auto simp: key_count_def)
  from record_change_one_row_per_key[OF 2] sid sid' c1 obtain i where
    c2: "key_count 1 1 Polish (change_logs s'') = 1" "length (change_logs s'') = 1"
    and i: "find_latest (same_key 1 1 Polish) (change_logs s'') = Some i"
       "after_text (change_logs s'' ! i) = ascii ''better''"
    by auto
  from find_latest_Some[OF i(1)] c2 have "i = 0" by simp
  with 1 2 c1 c2 i show ?thesis by auto
qed

section \<open>Compression of the history\<close>

lemma is_compressed_history_iff:
  "is_compressed_history h = (\<exists>t. h = [t] \<and> role t = ascii ''system'')"
  by (cases h rule: is_compressed_history.cases) auto

lemma is_compressed_system_turn: "is_compressed_history [system_turn summary]"
  by (simp add: system_turn_def)

lemma recent_messages_last3: "recent_messages h = drop (length h - 3) h"
  by (simp add: recent_messages_def)

text \<open>
  Claim C6. \<^verbatim>\<open>_compress_history\<close> returns a history that is one message of the role
  \<^verbatim>\<open>system\<close> as it is, without a call. Any other history is summarised from its last
  three messages at most, and the result is one message of the role \<^verbatim>\<open>system\<close> (or
  the exception of the summarising call). Whatever it returns is returned unchanged by
  a second compression, in any stage.
\<close>

theorem compress_history_identity_on_compressed:
  "(is_compressed_history h \<longrightarrow> compress_history env h st s = (Inr h, s)) \<and>
   (\<not> is_compressed_history h \<longrightarrow>
      compress_history env h st s =
        (case ai_compress_history env (length (trace s)) (drop (length h - 3) h)
                (compression_prompt st) of
           Inl e \<Rightarrow> (Inl e, log_event EvCompress s)
         | Inr summary \<Rightarrow>
             (Inr [\<lparr>role = ascii ''system'', content = summary_prefix @ summary\<rparr>],
              log_event EvCompress s))) \<and>
   length (drop (length h - 3) h) \<le> 3 \<and>
   (\<forall>h' s' env' st'. compress_history env h st s = (Inr h', s') \<longrightarrow>
      is_compressed_history h' \<and> compress_history env' h' st' s' = (Inr h', s'))"
proof (intro conjI impI allI)
  assume "is_compressed_history h"
  then show "compress_history env h st s = (Inr h, s)"
    by (simp add: compress_history_def)
next
  assume "\<not> is_compressed_history h"
  then show "compress_history env h st s =
        (case ai_compress_history env (length (trace s)) (drop (length h - 3) h)
                (compression_prompt st) of
           Inl e \<Rightarrow> (Inl e, log_event EvCompress s)
         | Inr summary \<Rightarrow>
             (Inr [\<lparr>role = ascii ''system'', content = summary_prefix @ summary\<rparr>],
              log_event EvCompress s))"
    by (simp add: compress_history_def recent_messages_last3 system_turn_def split: sum.splits)
next
  show "length (drop (length h - 3) h) \<le> 3" by simp
next
  fix h' s' env' st'
  assume r: "compress_history env h st s = (Inr h', s')"
  show c: "is_compressed_history h'"
  proof (cases "is_compressed_history h")
    case True
    with r show ?thesis by (simp add: compress_history_def)
  next
    case False
    with r obtain summary where "h' = [system_turn summary]"
      by (auto simp: compress_history_def split: sum.splits)
    then show ?thesis by (simp add: system_turn_def)
  qed
  show "compress_history env' h' st' s' = (Inr h', s')"
    using c by (simp add: compress_history_def)
qed

theorem compress_history_identity_on_compressed_witness:
  "compress_history example_env [system_turn (ascii ''summary'')] Polish example_world =
     (Inr [system_turn (ascii ''summary'')], example_world) \<and>
   compress_history example_env four_turns Polish example_world =
     (Inr [system_turn (ascii ''summary'')], log_event EvCompress example_world) \<and>
   drop (length four_turns - 3) four_turns =
     [assistant_turn (ascii ''b''), assistant_turn (ascii ''c''), assistant_turn (ascii ''d'')] \<and>
   compress_history failing_env [system_turn (ascii ''summary'')] Enhance
     (log_event EvCompress example_world) =
     (Inr [system_turn (ascii ''summary'')], log_event EvCompress example_world)"
proof -
  have a: "is_compressed_history [system_turn (ascii ''summary'')]"
    by (simp add: system_turn_def)
  have b: "\<not> is_compressed_history four_turns"
    by (simp add: four_turns_def)
  have c: "ai_compress_history example_env k m p = Inr (ascii ''summary'')" for k m p
    by (simp add: example_env_def)
  note t = compress_history_identity_on_compressed
  have 1: "compress_history example_env [system_turn (ascii ''summary'')] Polish example_world =
     (Inr [system_turn (ascii ''summary'')], example_world)"
    using t[of "[system_turn (ascii ''summary'')]" example_env Polish example_world] a by blast
  have 2: "compress_history example_env four_turns Polish example_world =
     (Inr [system_turn (ascii ''summary'')], log_event EvCompress example_world)"
    using t[of four_turns example_env Polish example_world] b c
    by (simp add: system_turn_def)
  have 3: "compress_history failing_env [system_turn (ascii ''summary'')] Enhance
     (log_event EvCompress example_world) =
     (Inr [system_turn (ascii ''summary'')], log_event EvCompress example_world)"
    using t[of four_turns example_env Polish example_world] 2 by blast
  have 4: "drop (length four_turns - 3) four_turns =
     [assistant_turn (ascii ''b''), assistant_turn (ascii ''c''), assistant_turn (ascii ''d'')]"
    by (simp add: four_turns_def)
  from 1 2 3 4 show ?thesis by blast
qed

section \<open>The effects of one iteration\<close>

text \<open>What each step adds to the trace, and what it leaves alone.\<close>

lemma calls_of_append: "calls_of (xs @ ys) = calls_of xs @ calls_of ys"
  by (induction xs rule: calls_of.induct) auto

lemma positions_of_append: "positions_of (xs @ ys) = positions_of xs @ positions_of ys"
  by (induction xs rule: positions_of.induct) auto

lemma progress_of_append: "progress_of (xs @ ys) = progress_of xs @ progress_of ys"
  by (induction xs rule: progress_of.induct) auto

lemma stages_of_append: "stages_of (xs @ ys) = stages_of xs @ stages_of ys"
  by (induction xs rule: stages_of.induct) auto

lemma statuses_of_append: "statuses_of (xs @ ys) = statuses_of xs @ statuses_of ys"
  by (induction xs rule: statuses_of.induct) auto

lemmas step_defs = commit_def log_event_def set_segment_def set_run_def now_def
  save_history_def store_output_def mark_title_def fill_title_enhanced_def update_progress_def

lemma fail_segment_effect:
  "fail_segment idx e s = (msg, s') \<Longrightarrow>
     msg = segment_message idx e \<and>
     (\<exists>r1 r2. trace s' = trace s @ [EvCommit r1, EvCommit r2]) \<and>
     segments s' = (segments s)[idx := (segments s ! idx)\<lparr>seg_status := SegFailed\<rparr>] \<and>
     session_obj s' = (session_obj s)\<lparr>failed_segment_index := Some (int idx), error_message := Some e\<rparr> \<and>
     histories s' = histories s \<and> change_logs s' = change_logs s"
  by (auto simp: fail_segment_def Let_def step_defs)

lemma record_change_effect:
  "record_change seg before after st s = Inr s' \<Longrightarrow>
     trace s' = trace s @ [EvCommit (session_obj s)] \<and> segments s' = segments s \<and>
     session_obj s' = session_obj s \<and> histories s' = histories s"
  by (auto simp: record_change_def step_defs split: option.splits)

lemma compress_history_effect:
  "compress_history env h st s = (r, s') \<Longrightarrow>
     (trace s' = trace s \<or> trace s' = trace s @ [EvCompress]) \<and> segments s' = segments s \<and>
     session_obj s' = session_obj s \<and> histories s' = histories s \<and> change_logs s' = change_logs s"
  by (auto simp: compress_history_def step_defs split: if_splits sum.splits)

lemma after_call_effect:
  assumes "after_call env st idx input_text output_text acc s = (r, s')"
  shows "\<exists>evs. trace s' = trace s @ evs \<and> calls_of evs = [] \<and> positions_of evs = [] \<and>
           progress_of evs = [] \<and>
           stages_of evs = [] \<and> (\<forall>st' i inp a. EvCall st' i inp a \<notin> set evs) \<and>
         length (segments s') = length (segments s) \<and>
         (\<forall>j. j \<noteq> idx \<longrightarrow> segments s' ! j = segments s ! j) \<and>
         (case r of
            Inr acc' \<Rightarrow> segments s' = segments s \<and> session_obj s' = session_obj s
          | Inl msg \<Rightarrow>
              (\<exists>e. msg = segment_message idx e \<and>
                 segments s' = (segments s)[idx := (segments s ! idx)\<lparr>seg_status := SegFailed\<rparr>] \<and>
                 session_obj s' = (session_obj s)\<lparr>failed_segment_index := Some (int idx),
                                                    error_message := Some e\<rparr>))"
proof (cases "record_change (segments s ! idx) input_text output_text st s")
  case (Inl e)
  with assms obtain msg where f: "fail_segment idx e s = (msg, s')" and r: "r = Inl msg"
    by (auto simp: after_call_def split: prod.splits)
  from fail_segment_effect[OF f] r show ?thesis by auto
next
  case (Inr s1)
  note rc = record_change_effect[OF Inr]
  let ?h = "fst acc @ [assistant_turn output_text]"
  let ?tc = "snd acc + count_chinese_characters env output_text"
  show ?thesis
  proof (cases "?tc > HISTORY_COMPRESSION_THRESHOLD env")
    case False
    with assms Inr have "r = Inr (?h, ?tc)" "s' = save_history ?h st ?tc s1"
      by (auto simp: after_call_def Let_def)
    with rc show ?thesis by (auto simp: step_defs)
  next
    case True
    obtain c s2 where c: "compress_history env ?h st s1 = (c, s2)" by fastforce
    note ce = compress_history_effect[OF c]
    show ?thesis
    proof (cases c)
      case (Inl e)
      with assms Inr True c obtain msg where f: "fail_segment idx e s2 = (msg, s')" and r: "r = Inl msg"
        by (auto simp: after_call_def Let_def split: prod.splits)
      from fail_segment_effect[OF f] r rc ce show ?thesis by auto
    next
      case (Inr ch)
      with assms \<open>record_change _ _ _ _ _ = Inr s1\<close> True c
      have "\<exists>t. r = Inr (ch, t) \<and> s' = save_history ch st t s2"
        by (auto simp: after_call_def Let_def)
      with rc ce show ?thesis by (auto simp: step_defs)
    qed
  qed
qed

lemma stage_output_store:
  "stage_output st ((if st = Enhance then g\<lparr>enhanced_text := Some out\<rparr>
       else g\<lparr>polished_text := Some out\<rparr>)\<lparr>seg_status := a, seg_completed_at := b\<rparr>) = Some out"
  by (cases st) auto

lemma stage_output_status [simp]:
  "stage_output st (g\<lparr>seg_status := a\<rparr>) = stage_output st g"
  by (cases st) auto

lemma call_ai_effect:
  assumes run: "call_ai env st idx acc s = (r, s')" and idx: "idx < length (segments s)"
  shows "\<exists>evs inp a. trace s' = trace s @ evs \<and> calls_of evs = [idx] \<and> positions_of evs = [] \<and>
           progress_of evs = [] \<and> stages_of evs = [] \<and>
           (\<forall>st' i inp' a'. EvCall st' i inp' a' \<in> set evs \<longrightarrow>
              st' = st \<and> i = idx \<and> inp' = inp \<and> a' = a) \<and>
           length (segments s') = length (segments s) \<and>
           (\<forall>j. j \<noteq> idx \<longrightarrow> segments s' ! j = segments s ! j) \<and>
           (case a of
              Inl exc \<Rightarrow> r = Inl (segment_message idx (retry_message idx st exc))
            | Inr out \<Rightarrow> stage_output st (segments s' ! idx) = Some out) \<and>
           (case r of
              Inr acc' \<Rightarrow> session_obj s' = session_obj s
            | Inl msg \<Rightarrow>
                (\<exists>e. msg = segment_message idx e \<and>
                   seg_status (segments s' ! idx) = SegFailed \<and>
                   session_obj s' = (session_obj s)\<lparr>failed_segment_index := Some (int idx),
                                                      error_message := Some e\<rparr>))"
proof -
  define s1 where "s1 = commit (set_segment idx (\<lambda>g. g\<lparr>seg_status := SegProcessing, seg_stage := st\<rparr>) s)"
  define inp where "inp = (if st = Enhance then polished_text (segments s1 ! idx)
              else Some (original_text (segments s1 ! idx)))"
  define a where "a = ai_call env (length (trace s1)) st inp (get_prompt env st) (fst acc)"
  define s2 where "s2 = log_event (EvCall st idx inp a) s1"
  have unfold: "call_ai env st idx acc s =
      (case run_with_retry idx st a of
         Inl e \<Rightarrow> (case fail_segment idx e s2 of (msg, s') \<Rightarrow> (Inl msg, s'))
       | Inr out \<Rightarrow> after_call env st idx inp out acc (store_output env st idx out s2))"
    unfolding call_ai_def s1_def inp_def a_def s2_def Let_def ..
  have t1: "trace s1 = trace s @ [EvCommit (session_obj s)]"
    by (simp add: s1_def step_defs)
  have t2: "trace s2 = trace s @ [EvCommit (session_obj s), EvCall st idx inp a]"
    by (simp add: s2_def log_event_def t1)
  have g1: "length (segments s1) = length (segments s)"
    by (simp add: s1_def step_defs)
  have f1: "\<forall>j. j \<noteq> idx \<longrightarrow> segments s1 ! j = segments s ! j"
    by (simp add: s1_def step_defs)
  have g2: "length (segments s2) = length (segments s)"
    and f2: "\<forall>j. j \<noteq> idx \<longrightarrow> segments s2 ! j = segments s ! j"
    using g1 f1 by (simp_all add: s2_def log_event_def)
  have r2: "session_obj s2 = session_obj s"
    by (simp add: s2_def s1_def step_defs)
  show ?thesis
  proof (cases a)
    case (Inl exc)
    then have rr: "run_with_retry idx st a = Inl (retry_message idx st exc)"
      by (simp add: run_with_retry_def)
    obtain msg s'' where f: "fail_segment idx (retry_message idx st exc) s2 = (msg, s'')"
      by fastforce
    from run have rs: "r = Inl msg" "s' = s''"
      unfolding unfold rr using f by simp_all
    note fe = fail_segment_effect[OF f]
    from fe obtain r1 r2 where t: "trace s'' = trace s2 @ [EvCommit r1, EvCommit r2]" by blast
    define evs where "evs = [EvCommit (session_obj s), EvCall st idx inp a, EvCommit r1, EvCommit r2]"
    have c1: "trace s' = trace s @ evs" using t t2 rs by (simp add: evs_def)
    have c2: "calls_of evs = [idx]" "positions_of evs = []" "progress_of evs = []"
      "stages_of evs = []" by (simp_all add: evs_def)
    have c3: "\<forall>st' i inp' a'. EvCall st' i inp' a' \<in> set evs \<longrightarrow>
              st' = st \<and> i = idx \<and> inp' = inp \<and> a' = a" by (simp add: evs_def)
    have c4: "length (segments s') = length (segments s)" using fe g2 rs by simp
    have c5: "\<forall>j. j \<noteq> idx \<longrightarrow> segments s' ! j = segments s ! j" using fe f2 rs by simp
    have msg: "msg = segment_message idx (retry_message idx st exc)"
      using fe by simp
    have c6: "case a of
              Inl exc \<Rightarrow> r = Inl (segment_message idx (retry_message idx st exc))
            | Inr out \<Rightarrow> stage_output st (segments s' ! idx) = Some out"
      using Inl rs msg by simp
    have st: "seg_status (segments s' ! idx) = SegFailed" using fe idx g2 rs by simp
    have so: "session_obj s' = (session_obj s)\<lparr>failed_segment_index := Some (int idx),
                 error_message := Some (retry_message idx st exc)\<rparr>"
      using fe r2 rs by simp
    have ex: "\<exists>e. msg = segment_message idx e \<and>
                   seg_status (segments s' ! idx) = SegFailed \<and>
                   session_obj s' = (session_obj s)\<lparr>failed_segment_index := Some (int idx),
                                                      error_message := Some e\<rparr>"
      using msg st so by blast
    have c7: "case r of
              Inr acc' \<Rightarrow> session_obj s' = session_obj s
            | Inl msg \<Rightarrow>
                (\<exists>e. msg = segment_message idx e \<and>
                   seg_status (segments s' ! idx) = SegFailed \<and>
                   session_obj s' = (session_obj s)\<lparr>failed_segment_index := Some (int idx),
                                                      error_message := Some e\<rparr>)"
      unfolding rs(1) sum.case by (rule ex)
    from c1 c2 c3 c4 c5 c6 c7 show ?thesis by blast
  next
    case (Inr out)
    then have rr: "run_with_retry idx st a = Inr out"
      by (simp add: run_with_retry_def)
    define s3 where "s3 = store_output env st idx out s2"
    from run have ac: "after_call env st idx inp out acc s3 = (r, s')"
      unfolding unfold rr s3_def by simp
    have t3: "trace s3 = trace s2 @ [EvCommit (session_obj s)]"
      by (simp add: s3_def step_defs r2)
    have g3: "length (segments s3) = length (segments s)"
      using g2 by (simp add: s3_def step_defs)
    have f3: "\<forall>j. j \<noteq> idx \<longrightarrow> segments s3 ! j = segments s ! j"
      using f2 by (simp add: s3_def step_defs)
    have r3: "session_obj s3 = session_obj s"
      using r2 by (simp add: s3_def step_defs)
    have o3: "stage_output st (segments s3 ! idx) = Some out"
      using idx g2 by (simp add: s3_def step_defs stage_output_store)
    from after_call_effect[OF ac] obtain evs0 where
      e: "trace s' = trace s3 @ evs0" "calls_of evs0 = []" "positions_of evs0 = []"
        "progress_of evs0 = []" "stages_of evs0 = []"
        "\<forall>st' i inp a. EvCall st' i inp a \<notin> set evs0"
      and g: "length (segments s') = length (segments s3)"
        "\<forall>j. j \<noteq> idx \<longrightarrow> segments s' ! j = segments s3 ! j"
      and c: "case r of
            Inr acc' \<Rightarrow> segments s' = segments s3 \<and> session_obj s' = session_obj s3
          | Inl msg \<Rightarrow>
              (\<exists>e. msg = segment_message idx e \<and>
                 segments s' = (segments s3)[idx := (segments s3 ! idx)\<lparr>seg_status := SegFailed\<rparr>] \<and>
                 session_obj s' = (session_obj s3)\<lparr>failed_segment_index := Some (int idx),
                                                    error_message := Some e\<rparr>)"
      by blast
    define evs where "evs = [EvCommit (session_obj s), EvCall st idx inp a, EvCommit (session_obj s)] @ evs0"
    have c1: "trace s' = trace s @ evs" using e(1) t3 t2 by (simp add: evs_def)
    have c2: "calls_of evs = [idx]" "positions_of evs = []" "progress_of evs = []"
      "stages_of evs = []"
      using e by (simp_all add: evs_def calls_of_append positions_of_append
          progress_of_append stages_of_append)
    have c3: "\<forall>st' i inp' a'. EvCall st' i inp' a' \<in> set evs \<longrightarrow>
              st' = st \<and> i = idx \<and> inp' = inp \<and> a' = a"
      using e(6) by (simp add: evs_def)
    have c4: "length (segments s') = length (segments s)" using g g3 by simp
    have c5: "\<forall>j. j \<noteq> idx \<longrightarrow> segments s' ! j = segments s ! j" using g f3 by simp
    have out: "stage_output st (segments s' ! idx) = Some out"
    proof (cases r)
      case (Inl msg)
      with c have "segments s' = (segments s3)[idx := (segments s3 ! idx)\<lparr>seg_status := SegFailed\<rparr>]"
        by auto
      with o3 idx g3 show ?thesis by simp
    next
      case (Inr acc')
      with c o3 show ?thesis by simp
    qed
    have c6: "case a of
              Inl exc \<Rightarrow> r = Inl (segment_message idx (retry_message idx st exc))
            | Inr out \<Rightarrow> stage_output st (segments s' ! idx) = Some out"
      using Inr out by simp
    have c7: "case r of
              Inr acc' \<Rightarrow> session_obj s' = session_obj s
            | Inl msg \<Rightarrow>
                (\<exists>e. msg = segment_message idx e \<and>
                   seg_status (segments s' ! idx) = SegFailed \<and>
                   session_obj s' = (session_obj s)\<lparr>failed_segment_index := Some (int idx),
                                                      error_message := Some e\<rparr>)"
    proof (cases r)
      case (Inl msg)
      from c[unfolded Inl sum.case] obtain e where m: "msg = segment_message idx e"
        and sg: "segments s' = (segments s3)[idx := (segments s3 ! idx)\<lparr>seg_status := SegFailed\<rparr>]"
        and so: "session_obj s' = (session_obj s3)\<lparr>failed_segment_index := Some (int idx),
                                                    error_message := Some e\<rparr>"
        by blast
      have "seg_status (segments s' ! idx) = SegFailed" using sg idx g3 by simp
      then have "\<exists>e. msg = segment_message idx e \<and>
                   seg_status (segments s' ! idx) = SegFailed \<and>
                   session_obj s' = (session_obj s)\<lparr>failed_segment_index := Some (int idx),
                                                      error_message := Some e\<rparr>"
        using m so[unfolded r3] by blast
      then show ?thesis unfolding Inl sum.case .
    next
      case (Inr acc')
      from c[unfolded Inr sum.case] r3 have "session_obj s' = session_obj s" by simp
      then show ?thesis unfolding Inr sum.case .
    qed
    from c1 c2 c3 c4 c5 c6 c7 show ?thesis by blast
  qed
qed

lemma stage_output_truthy_cases:
  "truthy (stage_output st g) =
     (((st = Polish \<or> st = EmotionPolish) \<and> truthy (polished_text g)) \<or>
      (st = Enhance \<and> truthy (enhanced_text g)))"
  by (cases st) auto

lemma update_progress_effect:
  "trace (update_progress st n idx s) =
     trace s @ [EvProgress idx (progress_value st idx n),
                EvCommit ((session_obj s)\<lparr>current_position := idx,
                                            progress := progress_value st idx n\<rparr>)]"
  "segments (update_progress st n idx s) = segments s"
  "failed_segment_index (session_obj (update_progress st n idx s)) =
     failed_segment_index (session_obj s)"
  "error_message (session_obj (update_progress st n idx s)) = error_message (session_obj s)"
  by (simp_all add: step_defs)

lemma process_segment_effect:
  assumes run: "process_segment env st n idx acc s = (r, s')" and idx: "idx < length (segments s)"
  shows "\<exists>evs. trace s' = trace s @ evs \<and> positions_of evs = [idx] \<and>
           progress_of evs = [progress_value st idx n] \<and> stages_of evs = [] \<and>
           (calls_of evs = [] \<or> calls_of evs = [idx]) \<and>
           (\<forall>st' i inp a. EvCall st' i inp a \<in> set evs \<longrightarrow>
              st' = st \<and> i = idx \<and> \<not> truthy (stage_output st (segments s ! idx)) \<and>
              (case a of
                 Inl exc \<Rightarrow> r = Inl (segment_message idx (retry_message idx st exc))
               | Inr out \<Rightarrow> stage_output st (segments s' ! idx) = Some out)) \<and>
           (truthy (stage_output st (segments s ! idx)) \<longrightarrow>
              calls_of evs = [] \<and> segments s' = segments s \<and> r = Inr acc) \<and>
           length (segments s') = length (segments s) \<and>
           (\<forall>j. j \<noteq> idx \<longrightarrow> segments s' ! j = segments s ! j) \<and>
           (case r of
              Inr acc' \<Rightarrow>
                failed_segment_index (session_obj s') = failed_segment_index (session_obj s) \<and>
                error_message (session_obj s') = error_message (session_obj s)
            | Inl msg \<Rightarrow>
                (\<exists>e. msg = segment_message idx e \<and>
                   seg_status (segments s' ! idx) = SegFailed \<and>
                   failed_segment_index (session_obj s') = Some (int idx) \<and>
                   error_message (session_obj s') = Some e))"
proof -
  define s1 where "s1 = update_progress st n idx s"
  define seg where "seg = segments s1 ! idx"
  define p where "p = progress_value st idx n"
  define ev1 where "ev1 = [EvProgress idx p,
      EvCommit ((session_obj s)\<lparr>current_position := idx, progress := p\<rparr>)]"
  have t1: "trace s1 = trace s @ ev1"
    and g1: "segments s1 = segments s"
    and r1: "failed_segment_index (session_obj s1) = failed_segment_index (session_obj s)"
      "error_message (session_obj s1) = error_message (session_obj s)"
    by (simp_all add: s1_def ev1_def p_def update_progress_effect)
  have seg: "seg = segments s ! idx" by (simp add: seg_def g1)
  have e1: "positions_of ev1 = [idx]" "progress_of ev1 = [p]" "stages_of ev1 = []"
    "calls_of ev1 = []" "\<forall>st' i inp a. EvCall st' i inp a \<notin> set ev1"
    by (simp_all add: ev1_def)
  let ?fin = "case r of
              Inr acc' \<Rightarrow>
                failed_segment_index (session_obj s') = failed_segment_index (session_obj s) \<and>
                error_message (session_obj s') = error_message (session_obj s)
            | Inl msg \<Rightarrow>
                (\<exists>e. msg = segment_message idx e \<and>
                   seg_status (segments s' ! idx) = SegFailed \<and>
                   failed_segment_index (session_obj s') = Some (int idx) \<and>
                   error_message (session_obj s') = Some e)"
  have unfold: "process_segment env st n idx acc s =
      (if (st = Polish \<or> st = EmotionPolish) \<and> truthy (polished_text seg) then (Inr acc, s1)
       else if st = Enhance \<and> (truthy (enhanced_text seg) \<or> is_title seg) then
         (if is_title seg \<and> \<not> truthy (enhanced_text seg)
          then (Inr acc, fill_title_enhanced env idx s1)
          else (Inr acc, s1))
       else if count_text_length env (original_text seg) < skip_threshold env
         then (Inr acc, mark_title env st idx s1)
       else call_ai env st idx acc s1)"
    unfolding process_segment_def s1_def seg_def Let_def ..
  consider
      (skip) "truthy (stage_output st seg)"
    | (title2) "\<not> truthy (stage_output st seg)" "st = Enhance" "is_title seg"
    | (short) "\<not> truthy (stage_output st seg)" "\<not> (st = Enhance \<and> is_title seg)"
        "count_text_length env (original_text seg) < skip_threshold env"
    | (call) "\<not> truthy (stage_output st seg)" "\<not> (st = Enhance \<and> is_title seg)"
        "\<not> count_text_length env (original_text seg) < skip_threshold env"
    by blast
  then show ?thesis
  proof cases
    case skip
    then have "(r, s') = (Inr acc, s1)"
      using run unfolding unfold by (auto simp: stage_output_truthy_cases)
    then have rs: "r = Inr acc" "s' = s1" by simp_all
    have c1: "trace s' = trace s @ ev1" using t1 rs by simp
    have c2: "segments s' = segments s" using g1 rs by simp
    have c3: ?fin unfolding rs(1) sum.case using r1 rs(2) by simp
    show ?thesis
      using c1 c2 c3 e1 rs(1) skip seg by (intro exI[of _ ev1]) (simp add: p_def)
  next
    case title2
    then have ne: "\<not> truthy (enhanced_text seg)" by simp
    define s2 where "s2 = fill_title_enhanced env idx s1"
    from title2 ne have "(r, s') = (Inr acc, s2)"
      using run unfolding unfold s2_def by simp
    then have rs: "r = Inr acc" "s' = s2" by simp_all
    define evs where "evs = ev1 @ [EvCommit (session_obj s1)]"
    have c1: "trace s' = trace s @ evs"
      using t1 rs by (simp add: evs_def s2_def step_defs)
    have c2: "length (segments s') = length (segments s)"
      "\<forall>j. j \<noteq> idx \<longrightarrow> segments s' ! j = segments s ! j"
      using g1 rs by (simp_all add: s2_def step_defs)
    have "session_obj s' = session_obj s1" using rs by (simp add: s2_def step_defs)
    then have c3: ?fin unfolding rs(1) sum.case using r1 by simp
    have e: "positions_of evs = [idx]" "progress_of evs = [p]" "stages_of evs = []"
      "calls_of evs = []" "\<forall>st' i inp a. EvCall st' i inp a \<notin> set evs"
      using e1 by (simp_all add: evs_def positions_of_append progress_of_append
          stages_of_append calls_of_append)
    show ?thesis
      using c1 c2 c3 e rs(1) title2(1) seg by (intro exI[of _ evs]) (simp add: p_def)
  next
    case short
    define s2 where "s2 = mark_title env st idx s1"
    from short have "(r, s') = (Inr acc, s2)"
      using run unfolding unfold s2_def by (auto simp: stage_output_truthy_cases)
    then have rs: "r = Inr acc" "s' = s2" by simp_all
    define evs where "evs = ev1 @ [EvCommit (session_obj s1)]"
    have c1: "trace s' = trace s @ evs"
      using t1 rs by (simp add: evs_def s2_def step_defs)
    have c2: "length (segments s') = length (segments s)"
      "\<forall>j. j \<noteq> idx \<longrightarrow> segments s' ! j = segments s ! j"
      using g1 rs by (simp_all add: s2_def step_defs)
    have "session_obj s' = session_obj s1" using rs by (simp add: s2_def step_defs)
    then have c3: ?fin unfolding rs(1) sum.case using r1 by simp
    have e: "positions_of evs = [idx]" "progress_of evs = [p]" "stages_of evs = []"
      "calls_of evs = []" "\<forall>st' i inp a. EvCall st' i inp a \<notin> set evs"
      using e1 by (simp_all add: evs_def positions_of_append progress_of_append
          stages_of_append calls_of_append)
    show ?thesis
      using c1 c2 c3 e rs(1) short(1) seg by (intro exI[of _ evs]) (simp add: p_def)
  next
    case call
    then have ca: "call_ai env st idx acc s1 = (r, s')"
      using run unfolding unfold by (auto simp: stage_output_truthy_cases)
    have idx1: "idx < length (segments s1)" using idx g1 by simp
    from call_ai_effect[OF ca idx1] obtain evs0 inp a where
      t: "trace s' = trace s1 @ evs0" and
      e0: "calls_of evs0 = [idx]" "positions_of evs0 = []" "progress_of evs0 = []"
        "stages_of evs0 = []" and
      ce: "\<forall>st' i inp' a'. EvCall st' i inp' a' \<in> set evs0 \<longrightarrow>
              st' = st \<and> i = idx \<and> inp' = inp \<and> a' = a" and
      g: "length (segments s') = length (segments s1)"
        "\<forall>j. j \<noteq> idx \<longrightarrow> segments s' ! j = segments s1 ! j" and
      ca': "case a of
              Inl exc \<Rightarrow> r = Inl (segment_message idx (retry_message idx st exc))
            | Inr out \<Rightarrow> stage_output st (segments s' ! idx) = Some out" and
      fin0: "case r of
              Inr acc' \<Rightarrow> session_obj s' = session_obj s1
            | Inl msg \<Rightarrow>
                (\<exists>e. msg = segment_message idx e \<and>
                   seg_status (segments s' ! idx) = SegFailed \<and>
                   session_obj s' = (session_obj s1)\<lparr>failed_segment_index := Some (int idx),
                                                      error_message := Some e\<rparr>)"
      by blast
    define evs where "evs = ev1 @ evs0"
    have c1: "trace s' = trace s @ evs" using t t1 by (simp add: evs_def)
    have e: "positions_of evs = [idx]" "progress_of evs = [p]" "stages_of evs = []"
      "calls_of evs = [idx]"
      using e1 e0 by (simp_all add: evs_def positions_of_append progress_of_append
          stages_of_append calls_of_append)
    have c2: "length (segments s') = length (segments s)"
      "\<forall>j. j \<noteq> idx \<longrightarrow> segments s' ! j = segments s ! j"
      using g g1 by simp_all
    have c3: ?fin
    proof (cases r)
      case (Inl msg)
      from fin0[unfolded Inl sum.case] obtain e where
        "msg = segment_message idx e" "seg_status (segments s' ! idx) = SegFailed"
        "session_obj s' = (session_obj s1)\<lparr>failed_segment_index := Some (int idx),
                                                      error_message := Some e\<rparr>"
        by blast
      then have "\<exists>e. msg = segment_message idx e \<and>
                   seg_status (segments s' ! idx) = SegFailed \<and>
                   failed_segment_index (session_obj s') = Some (int idx) \<and>
                   error_message (session_obj s') = Some e"
        by simp
      then show ?thesis unfolding Inl sum.case .
    next
      case (Inr acc')
      from fin0[unfolded Inr sum.case] r1 show ?thesis unfolding Inr sum.case by simp
    qed
    have c4: "\<forall>st' i inp' a'. EvCall st' i inp' a' \<in> set evs \<longrightarrow>
              st' = st \<and> i = idx \<and> \<not> truthy (stage_output st (segments s ! idx)) \<and>
              (case a' of
                 Inl exc \<Rightarrow> r = Inl (segment_message idx (retry_message idx st exc))
               | Inr out \<Rightarrow> stage_output st (segments s' ! idx) = Some out)"
      using ce e1(5) ca' call(1) seg by (auto simp: evs_def)
    have c5: "\<not> truthy (stage_output st (segments s ! idx))" using call(1) seg by simp
    show ?thesis
      using c1 c2 c3 c4 c5 e by (intro exI[of _ evs]) (auto simp: p_def)
  qed
qed

end
